theory Spec2Isabelle
  imports Main "HOL-Library.Sublist" "HOL-Library.Multiset"
begin

section \<open>The rule \<open>no-unused-classes\<close> of eslint-plugin-css-modules\<close>

text \<open>
  A shallow embedding of \<^verbatim>\<open>src/rules/no-unused-classes/no-unused-classes.ts\<close>.
  Strings are \<^typ>\<open>string\<close>. The collaborators of the rule that live outside the
  repository (Node's \<^verbatim>\<open>path\<close> and \<^verbatim>\<open>fs\<close>, the css-tree parser) are fields of an
  environment record, so every theorem holds for all of them.
\<close>

subsection \<open>JavaScript \<^verbatim>\<open>Set<string>\<close>\<close>

text \<open>
  A JavaScript \<^verbatim>\<open>Set\<close> iterates in insertion order and ignores the insertion of a member
  it already has: a list without duplicates, new members appended.
\<close>

definition set_add :: "string \<Rightarrow> string list \<Rightarrow> string list" where
  "set_add x s = (if x \<in> set s then s else s @ [x])"

definition set_has :: "string list \<Rightarrow> string \<Rightarrow> bool" where
  "set_has s x \<longleftrightarrow> x \<in> set s"

text \<open>\<^verbatim>\<open>xs.forEach((x) => s.add(x))\<close>\<close>

definition forEach_add :: "string list \<Rightarrow> string list \<Rightarrow> string list" where
  "forEach_add xs s = foldl (\<lambda>acc x. set_add x acc) s xs"

subsection \<open>The regular expression of \<^verbatim>\<open>isCssFile\<close>\<close>

text \<open>
  The fragment of JavaScript regular expressions that the literal
  \<^verbatim>\<open>/.+\.module\.(scss|css)$/i\<close> uses: the dot (any character but a line terminator), a
  literal character, greedy \<^verbatim>\<open>+\<close> on one of these two, sequence, alternation and the end
  anchor. \<open>rmatch ic r s\<close> lists, in the order a backtracking matcher tries them, the
  rests of \<open>s\<close> after each way \<open>r\<close> matches a prefix of \<open>s\<close>; \<open>ic\<close> is the flag \<^verbatim>\<open>i\<close>.
\<close>

datatype atom = Dot | Chr char

datatype regex =
    REmpty
  | RAtom atom
  | ROneOrMore atom
  | RSeq regex regex
  | RAlt regex regex
  | REnd

text \<open>
  The line terminators that the dot excludes: of the four of JavaScript, the line feed and
  the carriage return are the two that a \<^typ>\<open>char\<close> can be.
\<close>

definition isLineTerminator :: "char \<Rightarrow> bool" where
  "isLineTerminator c \<longleftrightarrow> c = CHR 0x0A \<or> c = CHR 0x0D"

text \<open>
  Case folding of the flag \<^verbatim>\<open>i\<close> (without \<^verbatim>\<open>u\<close>): a character is compared by its upper
  case, and no character outside ASCII folds to an ASCII one.
\<close>

definition canonicalize :: "char \<Rightarrow> char" where
  "canonicalize c =
     (case map_of (zip ''abcdefghijklmnopqrstuvwxyz'' ''ABCDEFGHIJKLMNOPQRSTUVWXYZ'') c of
        Some u \<Rightarrow> u
      | None \<Rightarrow> c)"

fun atom_matches :: "bool \<Rightarrow> atom \<Rightarrow> char \<Rightarrow> bool" where
  "atom_matches ic Dot c = (\<not> isLineTerminator c)"
| "atom_matches ic (Chr p) c = (if ic then canonicalize p = canonicalize c else p = c)"

fun rmatch :: "bool \<Rightarrow> regex \<Rightarrow> string \<Rightarrow> string list" where
  "rmatch ic REmpty s = [s]"
| "rmatch ic (RAtom a) [] = []"
| "rmatch ic (RAtom a) (c # cs) = (if atom_matches ic a c then [cs] else [])"
| "rmatch ic (ROneOrMore a) [] = []"
| "rmatch ic (ROneOrMore a) (c # cs) =
     (if atom_matches ic a c then rmatch ic (ROneOrMore a) cs @ [cs] else [])"
| "rmatch ic (RSeq r1 r2) s = concat (map (rmatch ic r2) (rmatch ic r1 s))"
| "rmatch ic (RAlt r1 r2) s = rmatch ic r1 s @ rmatch ic r2 s"
| "rmatch ic REnd s = (if s = [] then [s] else [])"

fun lit :: "string \<Rightarrow> regex" where
  "lit [] = REmpty"
| "lit (c # cs) = RSeq (RAtom (Chr c)) (lit cs)"

fun tails :: "'a list \<Rightarrow> 'a list list" where
  "tails [] = [[]]"
| "tails (x # xs) = (x # xs) # tails xs"

text \<open>\<^verbatim>\<open>RegExp.prototype.test\<close>: the pattern may match from any position of the input.\<close>

definition regex_test :: "bool \<Rightarrow> regex \<Rightarrow> string \<Rightarrow> bool" where
  "regex_test ic r s = list_ex (\<lambda>t. rmatch ic r t \<noteq> []) (tails s)"

text \<open>\<^verbatim>\<open>.+\.module\.(scss|css)$\<close>\<close>

definition css_module_pattern :: regex where
  "css_module_pattern =
     RSeq (ROneOrMore Dot)
       (RSeq (lit ''.module.'') (RSeq (RAlt (lit ''scss'') (lit ''css'')) REnd))"

definition isCssFile :: "string \<Rightarrow> bool" where
  "isCssFile importFilePath = regex_test True css_module_pattern importFilePath"

text \<open>
  The recognition test in the words of the specification, for comparison with
  \<^const>\<open>isCssFile\<close>: a case-insensitive match on a \<^verbatim>\<open>.module.css\<close> or \<^verbatim>\<open>.module.scss\<close>
  suffix.
\<close>

definition ends_with_ci :: "string \<Rightarrow> string \<Rightarrow> bool" where
  "ends_with_ci suf s \<longleftrightarrow>
     length suf \<le> length s \<and>
     map canonicalize (drop (length s - length suf) s) = map canonicalize suf"

definition spec_module_suffix :: "string \<Rightarrow> bool" where
  "spec_module_suffix s \<longleftrightarrow> ends_with_ci ''.module.css'' s \<or> ends_with_ci ''.module.scss'' s"

subsection \<open>Collaborators and settings\<close>

datatype error = FsError | CssSyntaxError

text \<open>
  A stylesheet tree as the walker of css-tree sees it: class selector nodes, which carry
  a name, and every other node with its children.
\<close>

datatype css_node = ClassSelector string | CssNode "css_node list"

record env =
  path_dirname :: "string \<Rightarrow> string"
  path_resolve :: "string \<Rightarrow> string \<Rightarrow> string"
  fs_existsSync :: "string \<Rightarrow> bool"
  fs_readFileSync :: "string \<Rightarrow> error + string"
  cssTree_parse :: "string \<Rightarrow> error + css_node"

text \<open>
  \<^verbatim>\<open>SharedSettings\<close>: \<open>None\<close> stands for \<^verbatim>\<open>undefined\<close> or \<^verbatim>\<open>null\<close>. The value of
  \<^verbatim>\<open>basePath\<close> is tested with \<^verbatim>\<open>typeof\<close>, so it is any primitive value.
\<close>

datatype js_value = JsUndefined | JsNull | JsBoolean bool | JsNumber int | JsString string

record plugin_settings =
  basePath :: js_value

record shared_settings =
  css_modules :: "plugin_settings option"

text \<open>\<^verbatim>\<open>RuleOptions\<close>, with the optional chaining of \<^verbatim>\<open>getMarkAsUsedOption\<close>.\<close>

record mark_as_used_options =
  markAsUsed :: "string list option"

datatype rule_options = NotArray | OptionsArray "mark_as_used_options option list"

record rule_context =
  filename :: string
  settings :: "shared_settings option"
  options :: rule_options

subsection \<open>Helper functions of the rule\<close>

definition starts_with_dot :: "string \<Rightarrow> bool" where
  "starts_with_dot s \<longleftrightarrow> take 1 s = ''.''"

text \<open>The default parameter \<^verbatim>\<open>basePath = ""\<close> applies when the argument is \<^verbatim>\<open>undefined\<close>.\<close>

definition resolvePhysicalCssFilePath ::
    "env \<Rightarrow> string \<Rightarrow> string \<Rightarrow> string option \<Rightarrow> string" where
  "resolvePhysicalCssFilePath E sourceFilePath importFilePath base_arg =
     (let base = (case base_arg of None \<Rightarrow> [] | Some b \<Rightarrow> b) in
      if starts_with_dot importFilePath
      then path_resolve E (path_dirname E sourceFilePath) importFilePath
      else path_resolve E base importFilePath)"

definition fileExists :: "env \<Rightarrow> string \<Rightarrow> bool" where
  "fileExists E physicalFilePath = fs_existsSync E physicalFilePath"

definition parseCssAst :: "env \<Rightarrow> string \<Rightarrow> error + css_node" where
  "parseCssAst E css = cssTree_parse E css"

definition parseCssFileAst :: "env \<Rightarrow> string \<Rightarrow> error + css_node" where
  "parseCssFileAst E physicalCssFilePath =
     (case fs_readFileSync E physicalCssFilePath of
        Inl e \<Rightarrow> Inl e
      | Inr contents \<Rightarrow> parseCssAst E contents)"

text \<open>The class selector nodes in the order \<^verbatim>\<open>cssTree.walk\<close> enters them.\<close>

fun class_selectors :: "css_node \<Rightarrow> string list" where
  "class_selectors (ClassSelector name) = [name]"
| "class_selectors (CssNode children) = concat (map class_selectors children)"

definition getCssFileClassNames :: "css_node \<Rightarrow> string list" where
  "getCssFileClassNames cssAst = forEach_add (class_selectors cssAst) []"

definition getBasePathSetting :: "shared_settings option \<Rightarrow> string option" where
  "getBasePathSetting s =
     (let pluginSettings = (case s of None \<Rightarrow> None | Some sh \<Rightarrow> css_modules sh);
          bp = (case pluginSettings of None \<Rightarrow> JsUndefined | Some p \<Rightarrow> basePath p)
      in case bp of
           JsString b \<Rightarrow> if b \<noteq> [] then Some b else None
         | _ \<Rightarrow> None)"

definition getMarkAsUsedOption :: "rule_options \<Rightarrow> string list" where
  "getMarkAsUsedOption opts =
     (case opts of
        NotArray \<Rightarrow> []
      | OptionsArray [] \<Rightarrow> []
      | OptionsArray (None # _) \<Rightarrow> []
      | OptionsArray (Some opt # _) \<Rightarrow>
          (case markAsUsed opt of None \<Rightarrow> [] | Some names \<Rightarrow> forEach_add names []))"

subsection \<open>Message strings\<close>

definition quote :: "string \<Rightarrow> string" where
  "quote className = [CHR 0x27] @ className @ [CHR 0x27]"

text \<open>\<^verbatim>\<open>Array.prototype.join\<close>\<close>

fun array_join :: "string \<Rightarrow> string list \<Rightarrow> string" where
  "array_join sep [] = []"
| "array_join sep [x] = x"
| "array_join sep (x # y # ys) = x @ sep @ array_join sep (y # ys)"

text \<open>A non-negative integer in a template literal: its decimal digits.\<close>

fun number_to_string :: "nat \<Rightarrow> string" where
  "number_to_string n =
     (if n < 10 then [''0123456789'' ! n]
      else number_to_string (n div 10) @ [''0123456789'' ! (n mod 10)])"

definition getPrettyUnusedClassNames :: "string list \<Rightarrow> string" where
  "getPrettyUnusedClassNames unused =
     (let base = array_join '', '' (map quote (take 3 unused)) in
      if length unused \<le> 3 then base
      else base @ ''... (+'' @ number_to_string (nat (max 0 (int (length unused) - 3)))
             @ '' more)'')"

definition getFixPayloadClassNames :: "string list \<Rightarrow> string" where
  "getFixPayloadClassNames unused = array_join '', '' (map quote unused)"

subsection \<open>The aggregation state\<close>

record import_declaration =
  source_value :: string
  node_range :: "nat \<times> nat"

text \<open>
  A member expression, with the result of \<^verbatim>\<open>ASTUtils.getPropertyName\<close> on it
  (\<open>None\<close> for \<^verbatim>\<open>null\<close>).
\<close>

record member_expression =
  propertyName :: "string option"

record anchor_meta =
  importNode :: import_declaration
  cssFilePath :: string

record file_record =
  availableClassNames :: "string list"
  usedClassNames :: "string list"
  meta :: "anchor_meta option"

text \<open>
  \<^verbatim>\<open>Map<SourceFilePath, ...>\<close> in insertion order. \<open>files_set\<close> is \<^verbatim>\<open>Map.prototype.set\<close>.
  \<open>files_update\<close> is a mutation of the object stored under a key, made through a
  reference to it (the handlers add to the \<^verbatim>\<open>Set\<close> objects of the stored record).
\<close>

type_synonym files_map = "(string \<times> file_record) list"

definition files_get :: "files_map \<Rightarrow> string \<Rightarrow> file_record option" where
  "files_get files k = map_of files k"

definition files_has :: "files_map \<Rightarrow> string \<Rightarrow> bool" where
  "files_has files k \<longleftrightarrow> map_of files k \<noteq> None"

fun files_set :: "files_map \<Rightarrow> string \<Rightarrow> file_record \<Rightarrow> files_map" where
  "files_set [] k v = [(k, v)]"
| "files_set ((k', v') # rest) k v =
     (if k' = k then (k, v) # rest else (k', v') # files_set rest k v)"

fun files_update :: "string \<Rightarrow> (file_record \<Rightarrow> file_record) \<Rightarrow> files_map \<Rightarrow> files_map" where
  "files_update k f [] = []"
| "files_update k f ((k', v') # rest) =
     (if k' = k then (k', f v') # rest else (k', v') # files_update k f rest)"

subsection \<open>The handlers\<close>

text \<open>
  In \<^verbatim>\<open>ImportDeclaration\<close> the local \<^verbatim>\<open>availableClassNames\<close> is the \<^verbatim>\<open>Set\<close> of the stored
  record when there is one, and otherwise the new \<^verbatim>\<open>Set\<close> that the new record is created
  with: in both cases the class names are added to the record stored under the source
  file path. The local \<^verbatim>\<open>meta\<close> is stored only when the record is created.
\<close>

definition ImportDeclaration ::
    "env \<Rightarrow> rule_context \<Rightarrow> import_declaration \<Rightarrow> files_map \<Rightarrow> error + files_map" where
  "ImportDeclaration E ctx node files =
     (let sourceFilePath = filename ctx;
          importFilePath = source_value node in
      if isCssFile importFilePath then
        let base = getBasePathSetting (settings ctx);
            cssPath = resolvePhysicalCssFilePath E sourceFilePath importFilePath base in
        if fileExists E cssPath then
          case parseCssFileAst E cssPath of
            Inl e \<Rightarrow> Inl e
          | Inr cssAst \<Rightarrow>
              let classNames = getCssFileClassNames cssAst in
              if length classNames > 0 then
                let file = files_get files sourceFilePath;
                    m = (case Option.bind file meta of
                           Some m0 \<Rightarrow> m0
                         | None \<Rightarrow> \<lparr>importNode = node, cssFilePath = cssPath\<rparr>);
                    files1 =
                      (if \<not> files_has files sourceFilePath
                       then files_set files sourceFilePath
                              \<lparr>availableClassNames = [], usedClassNames = [], meta = Some m\<rparr>
                       else files)
                in Inr (files_update sourceFilePath
                          (\<lambda>r. r\<lparr>availableClassNames :=
                                   forEach_add classNames (availableClassNames r)\<rparr>)
                          files1)
              else Inr files
        else Inr files
      else Inr files)"

text \<open>\<^verbatim>\<open>if (propertyName)\<close>: \<^verbatim>\<open>null\<close> and the empty string are falsy.\<close>

definition MemberExpression :: "rule_context \<Rightarrow> member_expression \<Rightarrow> files_map \<Rightarrow> files_map" where
  "MemberExpression ctx node files =
     (case propertyName node of
        None \<Rightarrow> files
      | Some name \<Rightarrow>
          if name = [] then files
          else
            let sourceFilePath = filename ctx;
                files1 =
                  (if \<not> files_has files sourceFilePath
                   then files_set files sourceFilePath
                          \<lparr>availableClassNames = [], usedClassNames = [], meta = None\<rparr>
                   else files)
            in files_update sourceFilePath
                 (\<lambda>r. r\<lparr>usedClassNames := set_add name (usedClassNames r)\<rparr>) files1)"

subsection \<open>Diagnostics\<close>

text \<open>
  A fix is the text edit that the fixer of ESLint returns: \<^verbatim>\<open>insertTextBeforeRange\<close>
  inserts at the start of the range and removes nothing. \<open>apply_fix\<close> applies an edit to
  a source text.
\<close>

record rule_fix =
  fix_range :: "nat \<times> nat"
  fix_text :: string

record suggestion =
  sug_messageId :: string
  sug_classNames :: string
  sug_fix :: rule_fix

record report =
  report_node :: import_declaration
  report_messageId :: string
  data_classNames :: string
  data_cssFilePath :: string
  suggest :: "suggestion list"

definition insertTextBeforeRange :: "nat \<times> nat \<Rightarrow> string \<Rightarrow> rule_fix" where
  "insertTextBeforeRange r text = \<lparr>fix_range = (fst r, fst r), fix_text = text\<rparr>"


definition directive_comment :: "string \<Rightarrow> string" where
  "directive_comment fixPayloadClassNames =
     ''/* eslint @jespers/css-modules/no-unused-classes: [2, { markAsUsed: [''
       @ fixPayloadClassNames @ ''] }] */'' @ [CHR 0x0A]"

text \<open>Lines 250 to 254: the filter over the values of \<^verbatim>\<open>availableClassNames\<close>.\<close>

definition unusedClassNames :: "string list \<Rightarrow> string list \<Rightarrow> string list \<Rightarrow> string list" where
  "unusedClassNames available used markAsUsedClassNames =
     filter (\<lambda>className. \<not> set_has used className \<and> \<not> set_has markAsUsedClassNames className)
       available"

text \<open>
  The callback of \<^verbatim>\<open>files.forEach\<close> in \<^verbatim>\<open>Program:exit\<close>: the reports of one record.
  \<^verbatim>\<open>importNode && cssFilePath\<close> fails without \<^verbatim>\<open>meta\<close> and for an empty path.
\<close>

definition report_file :: "string list \<Rightarrow> file_record \<Rightarrow> report list" where
  "report_file markAsUsedClassNames r =
     (let unused = unusedClassNames (availableClassNames r) (usedClassNames r)
                     markAsUsedClassNames in
      if length unused > 0 then
        (case meta r of
           None \<Rightarrow> []
         | Some m \<Rightarrow>
             if cssFilePath m \<noteq> [] then
               let prettyClassNames = getPrettyUnusedClassNames unused;
                   fixPayloadClassNames = getFixPayloadClassNames unused
               in [\<lparr>report_node = importNode m,
                    report_messageId = ''unusedCssClasses'',
                    data_classNames = prettyClassNames,
                    data_cssFilePath = cssFilePath m,
                    suggest =
                      [\<lparr>sug_messageId = ''markAsUsed'',
                        sug_classNames = fixPayloadClassNames,
                        sug_fix = insertTextBeforeRange (node_range (importNode m))
                                    (directive_comment fixPayloadClassNames)\<rparr>]\<rparr>]
             else [])
      else [])"

definition Program_exit :: "rule_context \<Rightarrow> files_map \<Rightarrow> report list" where
  "Program_exit ctx files =
     (let markAsUsedClassNames =
            (if length files > 0 then getMarkAsUsedOption (options ctx) else [])
      in concat (map (\<lambda>(k, r). report_file markAsUsedClassNames r) files))"

subsection \<open>One traversal\<close>

datatype event = ImportEvent import_declaration | MemberEvent member_expression

fun handle :: "env \<Rightarrow> rule_context \<Rightarrow> event \<Rightarrow> files_map \<Rightarrow> error + files_map" where
  "handle E ctx (ImportEvent node) files = ImportDeclaration E ctx node files"
| "handle E ctx (MemberEvent node) files = Inr (MemberExpression ctx node files)"

text \<open>An exception thrown by a handler ends the traversal.\<close>

fun traverse :: "env \<Rightarrow> rule_context \<Rightarrow> event list \<Rightarrow> files_map \<Rightarrow> error + files_map" where
  "traverse E ctx [] files = Inr files"
| "traverse E ctx (ev # evs) files =
     (case handle E ctx ev files of
        Inl e \<Rightarrow> Inl e
      | Inr files1 \<Rightarrow> traverse E ctx evs files1)"

text \<open>\<^verbatim>\<open>create(context)\<close> starts with an empty map; \<^verbatim>\<open>Program:exit\<close> runs after the traversal.\<close>

definition lint :: "env \<Rightarrow> rule_context \<Rightarrow> event list \<Rightarrow> error + report list" where
  "lint E ctx evs =
     (case traverse E ctx evs [] of
        Inl e \<Rightarrow> Inl e
      | Inr files \<Rightarrow> Inr (Program_exit ctx files))"

subsection \<open>Observations of the state\<close>

text \<open>The two sets of the record of a source file, empty when there is no record.\<close>

definition available_of :: "files_map \<Rightarrow> string \<Rightarrow> string set" where
  "available_of files k =
     (case files_get files k of None \<Rightarrow> {} | Some r \<Rightarrow> set (availableClassNames r))"

definition used_of :: "files_map \<Rightarrow> string \<Rightarrow> string set" where
  "used_of files k =
     (case files_get files k of None \<Rightarrow> {} | Some r \<Rightarrow> set (usedClassNames r))"

text \<open>
  What one event does to the empty map: the class names and property names it adds to the
  record of a source file, whether it creates that record, and whether its handler throws.
\<close>

definition event_available :: "env \<Rightarrow> rule_context \<Rightarrow> event \<Rightarrow> string \<Rightarrow> string set" where
  "event_available E ctx ev k =
     (case handle E ctx ev [] of Inl e \<Rightarrow> {} | Inr f \<Rightarrow> available_of f k)"

definition event_used :: "env \<Rightarrow> rule_context \<Rightarrow> event \<Rightarrow> string \<Rightarrow> string set" where
  "event_used E ctx ev k =
     (case handle E ctx ev [] of Inl e \<Rightarrow> {} | Inr f \<Rightarrow> used_of f k)"

definition event_creates :: "env \<Rightarrow> rule_context \<Rightarrow> event \<Rightarrow> string \<Rightarrow> bool" where
  "event_creates E ctx ev k =
     (case handle E ctx ev [] of Inl e \<Rightarrow> False | Inr f \<Rightarrow> files_has f k)"

definition event_throws :: "env \<Rightarrow> rule_context \<Rightarrow> event \<Rightarrow> bool" where
  "event_throws E ctx ev = (case handle E ctx ev [] of Inl e \<Rightarrow> True | Inr f \<Rightarrow> False)"

subsection \<open>A concrete run\<close>

text \<open>
  A source file \<^verbatim>\<open>/app/page.tsx\<close> beside a stylesheet \<^verbatim>\<open>a.module.css\<close> that declares the
  classes \<^verbatim>\<open>x\<close> and \<^verbatim>\<open>y\<close>, an import of the stylesheet and an access \<^verbatim>\<open>styles.x\<close>.
\<close>

definition example_env :: env where
  "example_env =
     \<lparr>path_dirname = (\<lambda>p. ''/app''),
      path_resolve = (\<lambda>dir f. dir @ ''/'' @ f),
      fs_existsSync = (\<lambda>p. p = ''/app/./a.module.css''),
      fs_readFileSync =
        (\<lambda>p. if p = ''/app/./a.module.css'' then Inr ''.x{} .y{}'' else Inl FsError),
      cssTree_parse =
        (\<lambda>css. if css = ''.x{} .y{}''
               then Inr (CssNode [CssNode [ClassSelector ''x''], CssNode [ClassSelector ''y'']])
               else Inl CssSyntaxError)\<rparr>"

definition example_context :: rule_context where
  "example_context =
     \<lparr>filename = ''/app/page.tsx'', settings = None,
      options = OptionsArray [Some \<lparr>markAsUsed = Some []\<rparr>]\<rparr>"

definition example_import :: import_declaration where
  "example_import = \<lparr>source_value = ''./a.module.css'', node_range = (20, 56)\<rparr>"

definition example_member :: member_expression where
  "example_member = \<lparr>propertyName = Some ''x''\<rparr>"



section \<open>Basic facts\<close>

lemma set_forEach_add: "set (forEach_add xs s) = set s \<union> set xs"
  unfolding forEach_add_def
  by (induction xs arbitrary: s) (auto simp: set_add_def)

lemma getCssFileClassNames_empty: "getCssFileClassNames ast = [] \<longleftrightarrow> class_selectors ast = []"
proof -
  have "set (getCssFileClassNames ast) = set (class_selectors ast)"
    by (simp add: getCssFileClassNames_def set_forEach_add)
  then show ?thesis by (metis set_empty)
qed

lemma map_of_files_set:
  "map_of (files_set files k v) = (map_of files)(k \<mapsto> v)"
  by (induction files) (auto simp: fun_eq_iff)

lemma map_of_files_update:
  "map_of (files_update k f files) = (map_of files)(k := map_option f (map_of files k))"
  by (induction files) (auto simp: fun_eq_iff)

text \<open>
  The import handler without its local variables: it returns the map as it is, throws, or
  adds the class names of the stylesheet to the record of the source file, which it
  creates, with the anchor, when there is none.
\<close>

lemma ImportDeclaration_cases:
  "ImportDeclaration E ctx node files =
     (let p = resolvePhysicalCssFilePath E (filename ctx) (source_value node)
                (getBasePathSetting (settings ctx)) in
      if isCssFile (source_value node) \<and> fs_existsSync E p then
        (case parseCssFileAst E p of
           Inl e \<Rightarrow> Inl e
         | Inr ast \<Rightarrow>
             if class_selectors ast = [] then Inr files
             else Inr (files_update (filename ctx)
                         (\<lambda>r. r\<lparr>availableClassNames :=
                                 forEach_add (getCssFileClassNames ast) (availableClassNames r)\<rparr>)
                         (if files_has files (filename ctx) then files
                          else files_set files (filename ctx)
                                 \<lparr>availableClassNames = [], usedClassNames = [],
                                  meta = Some \<lparr>importNode = node, cssFilePath = p\<rparr>\<rparr>)))
      else Inr files)"
  by (auto simp: ImportDeclaration_def Let_def fileExists_def getCssFileClassNames_empty
                 files_has_def files_get_def
           split: sum.splits option.splits)

lemma available_of_import_step:
  "available_of (files_update fn
       (\<lambda>r. r\<lparr>availableClassNames := forEach_add cs (availableClassNames r)\<rparr>)
       (if files_has files fn then files
        else files_set files fn \<lparr>availableClassNames = [], usedClassNames = [], meta = m\<rparr>)) k
   = available_of files k \<union> (if k = fn then set cs else {})"
  by (auto simp: available_of_def files_get_def files_has_def map_of_files_update
                 map_of_files_set set_forEach_add split: option.splits)

lemma available_of_MemberExpression:
  "available_of (MemberExpression ctx n files) k = available_of files k"
  by (auto simp: MemberExpression_def available_of_def files_get_def files_has_def
                 map_of_files_update map_of_files_set Let_def split: option.splits)

section \<open>The unused class names\<close>

text \<open>
  C2. The unused list of a record is \<open>availableClassNames\<close> without the members of
  \<open>usedClassNames\<close> and of the \<open>markAsUsed\<close> set, in the iteration order of
  \<open>availableClassNames\<close>: as a set it is the difference, and it is a subsequence of
  \<open>availableClassNames\<close>, namely all its elements outside the two other sets.
\<close>

theorem unused_subtraction:
  "set (unusedClassNames av us mk) = set av - set us - set mk
   \<and> subseq (unusedClassNames av us mk) av
   \<and> unusedClassNames av us mk = filter (\<lambda>c. c \<notin> set us \<union> set mk) av"
  by (auto simp: unusedClassNames_def set_has_def)

section \<open>Path resolution\<close>

text \<open>
  C7. A specifier that starts with a dot is resolved against the directory of the
  importing file, any other specifier against the configured base path, which is the
  empty string unless the shared settings hold a plugin entry whose \<open>basePath\<close> is a
  non-empty string.
\<close>

theorem resolve_physical_path:
  "resolvePhysicalCssFilePath E src imp (getBasePathSetting st) =
     (if prefix ''.'' imp then path_resolve E (path_dirname E src) imp
      else path_resolve E (case getBasePathSetting st of None \<Rightarrow> [] | Some b \<Rightarrow> b) imp)
   \<and> (getBasePathSetting st = Some b \<longleftrightarrow>
        (\<exists>sh p. st = Some sh \<and> css_modules sh = Some p \<and> basePath p = JsString b \<and> b \<noteq> []))"
  by (cases imp)
     (auto simp: resolvePhysicalCssFilePath_def starts_with_dot_def getBasePathSetting_def
           split: option.splits js_value.splits if_splits)

section \<open>Finalization\<close>

text \<open>
  C8. A record whose unused list is empty, or that has no anchor, yields no diagnostic;
  so does every record whose \<open>availableClassNames\<close> is empty; and when every record of
  the map is of this kind, \<^verbatim>\<open>Program:exit\<close> reports nothing.
\<close>

theorem no_report_without_unused_or_anchor:
  "(unusedClassNames (availableClassNames r) (usedClassNames r) mk = [] \<or> meta r = None
      \<longrightarrow> report_file mk r = [])
   \<and> (availableClassNames r = [] \<longrightarrow> report_file mk r = [])
   \<and> ((\<forall>(k, r') \<in> set files.
          unusedClassNames (availableClassNames r') (usedClassNames r')
            (getMarkAsUsedOption (options ctx)) = [] \<or> meta r' = None)
      \<longrightarrow> Program_exit ctx files = [])"
  by (auto simp: report_file_def Program_exit_def unusedClassNames_def Let_def
           split: option.splits)

theorem no_report_without_unused_or_anchor_witness:
  "availableClassNames \<lparr>availableClassNames = [], usedClassNames = [''x''], meta = None\<rparr> = []
   \<and> report_file [''y'']
       \<lparr>availableClassNames = [], usedClassNames = [''x''], meta = None\<rparr> = []
   \<and> Program_exit example_context
       [(''/app/page.tsx'',
         \<lparr>availableClassNames = [], usedClassNames = [''x''], meta = None\<rparr>)] = []"
  using no_report_without_unused_or_anchor
          [of "\<lparr>availableClassNames = [], usedClassNames = [''x''], meta = None\<rparr>" "[''y'']"
              "[(''/app/page.tsx'',
                 \<lparr>availableClassNames = [], usedClassNames = [''x''], meta = None\<rparr>)]"
              example_context]
  by (simp add: unusedClassNames_def)

section \<open>What an import contributes\<close>

text \<open>
  C9. Whenever the import handler does anything but return the map unchanged, the
  specifier is a stylesheet module and resolves to an existing file; then either reading
  or parsing the file fails and the handler throws, leaving no state, or the stylesheet
  declares at least one class selector and the handler adds exactly its class names to
  \<open>availableClassNames\<close> of the record of the source file. The other handler never
  changes \<open>availableClassNames\<close>.
\<close>

theorem import_gains_only_from_parsed_nonempty_stylesheets:
  assumes "ImportDeclaration E ctx node files \<noteq> Inr files"
  shows "isCssFile (source_value node)
    \<and> fs_existsSync E (resolvePhysicalCssFilePath E (filename ctx) (source_value node)
                          (getBasePathSetting (settings ctx)))
    \<and> (case parseCssFileAst E (resolvePhysicalCssFilePath E (filename ctx) (source_value node)
                                  (getBasePathSetting (settings ctx))) of
         Inl e \<Rightarrow> ImportDeclaration E ctx node files = Inl e
       | Inr ast \<Rightarrow>
           class_selectors ast \<noteq> []
           \<and> (\<exists>files'. ImportDeclaration E ctx node files = Inr files'
                \<and> (\<forall>k. available_of files' k =
                          available_of files k
                          \<union> (if k = filename ctx then set (class_selectors ast) else {}))))
    \<and> (\<forall>n k. available_of (MemberExpression ctx n files) k = available_of files k)"
proof -
  let ?p = "resolvePhysicalCssFilePath E (filename ctx) (source_value node)
              (getBasePathSetting (settings ctx))"
  from assms have c: "isCssFile (source_value node) \<and> fs_existsSync E ?p"
    by (auto simp: ImportDeclaration_cases Let_def split: if_splits)
  show ?thesis
  proof (cases "parseCssFileAst E ?p")
    case (Inl e)
    then show ?thesis
      using c by (simp add: ImportDeclaration_cases available_of_MemberExpression)
  next
    case (Inr ast)
    with assms c have ne: "class_selectors ast \<noteq> []"
      by (auto simp: ImportDeclaration_cases Let_def split: if_splits)
    show ?thesis
      using c Inr ne
      by (simp add: ImportDeclaration_cases available_of_import_step
            available_of_MemberExpression getCssFileClassNames_def set_forEach_add)
  qed
qed

theorem import_gains_witness:
  "ImportDeclaration example_env example_context example_import [] \<noteq> Inr []
   \<and> isCssFile (source_value example_import)
   \<and> fs_existsSync example_env ''/app/./a.module.css''"
proof -
  have h: "ImportDeclaration example_env example_context example_import [] \<noteq> Inr []"
    by code_simp
  have p: "resolvePhysicalCssFilePath example_env (filename example_context)
             (source_value example_import) (getBasePathSetting (settings example_context))
           = ''/app/./a.module.css''"
    by code_simp
  from import_gains_only_from_parsed_nonempty_stylesheets [OF h] h p
  show ?thesis by simp
qed

section \<open>The summary of the unused class names\<close>

declare number_to_string.simps [simp del]













section \<open>The suggested fix\<close>


lemma set_array_join: "set (array_join sep xs) \<subseteq> set sep \<union> \<Union> (set ` set xs)"
  by (induction sep xs rule: array_join.induct) auto








section \<open>Recognition of stylesheet modules\<close>

lemma mem_tails: "t \<in> set (tails s) \<longleftrightarrow> suffix t s"
  by (induction s) (auto simp: suffix_Cons)

lemma rmatch_lit:
  "t \<in> set (rmatch True (lit w) s) \<longleftrightarrow>
     (\<exists>p. s = p @ t \<and> map canonicalize p = map canonicalize w)"
proof (induction w arbitrary: s)
  case Nil
  then show ?case by auto
next
  case (Cons c w)
  show ?case
  proof (cases s)
    case Nil
    then show ?thesis by auto
  next
    case (Cons a s')
    show ?thesis
    proof (cases "canonicalize c = canonicalize a")
      case True
      have "t \<in> set (rmatch True (lit (c # w)) s) \<longleftrightarrow> t \<in> set (rmatch True (lit w) s')"
        using True Cons by simp
      also have "\<dots> \<longleftrightarrow> (\<exists>p. s' = p @ t \<and> map canonicalize p = map canonicalize w)"
        by (rule Cons.IH)
      also have "\<dots> \<longleftrightarrow> (\<exists>p. s = p @ t \<and> map canonicalize p = map canonicalize (c # w))"
      proof
        assume "\<exists>p. s' = p @ t \<and> map canonicalize p = map canonicalize w"
        then obtain p where "s' = p @ t" "map canonicalize p = map canonicalize w" by blast
        then have "s = (a # p) @ t \<and> map canonicalize (a # p) = map canonicalize (c # w)"
          using True Cons by simp
        then show "\<exists>p. s = p @ t \<and> map canonicalize p = map canonicalize (c # w)" by blast
      next
        assume "\<exists>p. s = p @ t \<and> map canonicalize p = map canonicalize (c # w)"
        then obtain p where p: "s = p @ t" "map canonicalize p = map canonicalize (c # w)"
          by blast
        then obtain b p' where "p = b # p'" by (cases p) auto
        with p Cons show "\<exists>p. s' = p @ t \<and> map canonicalize p = map canonicalize w"
          by auto
      qed
      finally show ?thesis .
    next
      case False
      have "\<not> (\<exists>p. s = p @ t \<and> map canonicalize p = map canonicalize (c # w))"
      proof
        assume "\<exists>p. s = p @ t \<and> map canonicalize p = map canonicalize (c # w)"
        then obtain p where p: "s = p @ t" "map canonicalize p = map canonicalize (c # w)"
          by blast
        then obtain b p' where "p = b # p'" by (cases p) auto
        with p Cons False show False by auto
      qed
      then show ?thesis using False Cons by simp
    qed
  qed
qed

lemma rmatch_dots:
  "t \<in> set (rmatch ic (ROneOrMore Dot) s) \<longleftrightarrow>
     (\<exists>p. s = p @ t \<and> p \<noteq> [] \<and> (\<forall>c\<in>set p. \<not> isLineTerminator c))"
proof (induction s)
  case Nil
  then show ?case by simp
next
  case (Cons a s)
  show ?case
  proof (cases "isLineTerminator a")
    case True
    have "\<not> (\<exists>p. a # s = p @ t \<and> p \<noteq> [] \<and> (\<forall>c\<in>set p. \<not> isLineTerminator c))"
    proof
      assume "\<exists>p. a # s = p @ t \<and> p \<noteq> [] \<and> (\<forall>c\<in>set p. \<not> isLineTerminator c)"
      then obtain p where p: "a # s = p @ t" "p \<noteq> []" "\<forall>c\<in>set p. \<not> isLineTerminator c"
        by blast
      then obtain b p' where "p = b # p'" by (cases p) auto
      with p True show False by auto
    qed
    then show ?thesis using True by simp
  next
    case False
    have "(\<exists>p. a # s = p @ t \<and> p \<noteq> [] \<and> (\<forall>c\<in>set p. \<not> isLineTerminator c))
          \<longleftrightarrow> t = s \<or> (\<exists>p. s = p @ t \<and> p \<noteq> [] \<and> (\<forall>c\<in>set p. \<not> isLineTerminator c))"
    proof
      assume "\<exists>p. a # s = p @ t \<and> p \<noteq> [] \<and> (\<forall>c\<in>set p. \<not> isLineTerminator c)"
      then obtain p where p: "a # s = p @ t" "p \<noteq> []" "\<forall>c\<in>set p. \<not> isLineTerminator c"
        by blast
      then obtain b p' where b: "p = b # p'" by (cases p) auto
      show "t = s \<or> (\<exists>p. s = p @ t \<and> p \<noteq> [] \<and> (\<forall>c\<in>set p. \<not> isLineTerminator c))"
      proof (cases "p' = []")
        case True
        with p b show ?thesis by simp
      next
        case False
        with p b have "s = p' @ t \<and> p' \<noteq> [] \<and> (\<forall>c\<in>set p'. \<not> isLineTerminator c)" by simp
        then show ?thesis by blast
      qed
    next
      assume "t = s \<or> (\<exists>p. s = p @ t \<and> p \<noteq> [] \<and> (\<forall>c\<in>set p. \<not> isLineTerminator c))"
      then show "\<exists>p. a # s = p @ t \<and> p \<noteq> [] \<and> (\<forall>c\<in>set p. \<not> isLineTerminator c)"
      proof
        assume "t = s"
        then have "a # s = [a] @ t \<and> [a] \<noteq> [] \<and> (\<forall>c\<in>set [a]. \<not> isLineTerminator c)"
          using False by simp
        then show ?thesis by blast
      next
        assume "\<exists>p. s = p @ t \<and> p \<noteq> [] \<and> (\<forall>c\<in>set p. \<not> isLineTerminator c)"
        then obtain p where "s = p @ t" "p \<noteq> []" "\<forall>c\<in>set p. \<not> isLineTerminator c" by blast
        then have "a # s = (a # p) @ t \<and> a # p \<noteq> [] \<and> (\<forall>c\<in>set (a # p). \<not> isLineTerminator c)"
          using False by simp
        then show ?thesis by blast
      qed
    qed
    then show ?thesis using False Cons.IH by auto
  qed
qed

lemma map_eq_map_append:
  "(\<exists>p q. t = p @ q \<and> map f p = map f a \<and> map f q = map f b) \<longleftrightarrow> map f t = map f (a @ b)"
  unfolding map_append map_eq_append_conv by metis

lemma rmatch_lit_nil:
  "[] \<in> set (rmatch True (lit w) s) \<longleftrightarrow> map canonicalize s = map canonicalize w"
  by (simp add: rmatch_lit)

lemma rmatch_tail:
  "u \<in> set (rmatch True (RSeq (lit m) (RSeq (RAlt (lit x) (lit y)) REnd)) t) \<longleftrightarrow>
     u = [] \<and> (map canonicalize t = map canonicalize (m @ x)
               \<or> map canonicalize t = map canonicalize (m @ y))"
proof -
  have "u \<in> set (rmatch True (RSeq (lit m) (RSeq (RAlt (lit x) (lit y)) REnd)) t) \<longleftrightarrow>
        u = [] \<and> (\<exists>q. q \<in> set (rmatch True (lit m) t)
           \<and> ([] \<in> set (rmatch True (lit x) q) \<or> [] \<in> set (rmatch True (lit y) q)))"
    by auto
  also have "\<dots> \<longleftrightarrow> u = [] \<and>
       ((\<exists>p q. t = p @ q \<and> map canonicalize p = map canonicalize m
            \<and> map canonicalize q = map canonicalize x)
        \<or> (\<exists>p q. t = p @ q \<and> map canonicalize p = map canonicalize m
            \<and> map canonicalize q = map canonicalize y))"
    unfolding rmatch_lit rmatch_lit_nil by blast
  finally show ?thesis unfolding map_eq_map_append .
qed

lemma rmatch_RSeq:
  "u \<in> set (rmatch ic (RSeq r1 r2) s) \<longleftrightarrow> (\<exists>q\<in>set (rmatch ic r1 s). u \<in> set (rmatch ic r2 q))"
  by simp

lemma nonempty_has_member: "xs \<noteq> [] \<Longrightarrow> \<exists>u. u \<in> set xs"
  by (cases xs) auto

lemma rmatch_pattern:
  "rmatch True (RSeq (ROneOrMore Dot) (RSeq (lit m) (RSeq (RAlt (lit x) (lit y)) REnd))) s \<noteq> []
   \<longleftrightarrow> (\<exists>p q. s = p @ q \<and> p \<noteq> [] \<and> (\<forall>c\<in>set p. \<not> isLineTerminator c)
          \<and> (map canonicalize q = map canonicalize (m @ x)
             \<or> map canonicalize q = map canonicalize (m @ y)))"
  (is "?L \<longleftrightarrow> ?R")
proof
  let ?T = "RSeq (lit m) (RSeq (RAlt (lit x) (lit y)) REnd)"
  assume ?L
  then have "\<exists>u. u \<in> set (rmatch True (RSeq (ROneOrMore Dot) ?T) s)"
    by (rule nonempty_has_member)
  then obtain u where "u \<in> set (rmatch True (RSeq (ROneOrMore Dot) ?T) s)" ..
  then obtain q where q: "q \<in> set (rmatch True (ROneOrMore Dot) s)"
    and u: "u \<in> set (rmatch True ?T q)"
    unfolding rmatch_RSeq [of u True "ROneOrMore Dot" ?T s] by blast
  from q obtain p where "s = p @ q" "p \<noteq> []" "\<forall>c\<in>set p. \<not> isLineTerminator c"
    unfolding rmatch_dots by blast
  moreover from u have "map canonicalize q = map canonicalize (m @ x)
             \<or> map canonicalize q = map canonicalize (m @ y)"
    unfolding rmatch_tail by blast
  ultimately show ?R by blast
next
  let ?T = "RSeq (lit m) (RSeq (RAlt (lit x) (lit y)) REnd)"
  assume ?R
  then obtain p q where pq: "s = p @ q" "p \<noteq> []" "\<forall>c\<in>set p. \<not> isLineTerminator c"
    "map canonicalize q = map canonicalize (m @ x)
     \<or> map canonicalize q = map canonicalize (m @ y)"
    by blast
  from pq(1-3) have "q \<in> set (rmatch True (ROneOrMore Dot) s)"
    unfolding rmatch_dots by blast
  moreover from pq(4) have "[] \<in> set (rmatch True ?T q)"
    unfolding rmatch_tail by blast
  ultimately have "[] \<in> set (rmatch True (RSeq (ROneOrMore Dot) ?T) s)"
    unfolding rmatch_RSeq [of "[]" True "ROneOrMore Dot" ?T s] by blast
  then show ?L by (metis empty_iff empty_set)
qed

lemma regex_test_iff:
  "regex_test ic r s \<longleftrightarrow> (\<exists>pre t. s = pre @ t \<and> rmatch ic r t \<noteq> [])"
proof -
  have "regex_test ic r s \<longleftrightarrow> (\<exists>t. t \<in> set (tails s) \<and> rmatch ic r t \<noteq> [])"
    unfolding regex_test_def list_ex_iff by blast
  then show ?thesis unfolding mem_tails suffix_def by blast
qed

lemma regex_test_pattern:
  "regex_test True (RSeq (ROneOrMore Dot) (RSeq (lit m) (RSeq (RAlt (lit x) (lit y)) REnd))) s
   \<longleftrightarrow> (\<exists>pre c suf. s = pre @ c # suf \<and> \<not> isLineTerminator c
          \<and> (map canonicalize suf = map canonicalize (m @ x)
             \<or> map canonicalize suf = map canonicalize (m @ y)))"
  (is "?L \<longleftrightarrow> ?R")
proof
  assume ?L
  then obtain pre t where t: "s = pre @ t"
    and "rmatch True (RSeq (ROneOrMore Dot) (RSeq (lit m) (RSeq (RAlt (lit x) (lit y)) REnd))) t
         \<noteq> []"
    unfolding regex_test_iff by blast
  then obtain p q where pq: "t = p @ q" "p \<noteq> []" "\<forall>c\<in>set p. \<not> isLineTerminator c"
    and c: "map canonicalize q = map canonicalize (m @ x)
     \<or> map canonicalize q = map canonicalize (m @ y)"
    unfolding rmatch_pattern by blast
  from pq(2) have bl: "p = butlast p @ [last p]" by simp
  from pq(2,3) have l: "\<not> isLineTerminator (last p)" by simp
  have "s = pre @ (butlast p @ [last p]) @ q" using t pq(1) bl by simp
  then have "s = (pre @ butlast p) @ last p # q" by simp
  with l c show ?R by blast
next
  assume ?R
  then obtain pre c suf where r: "s = pre @ c # suf" "\<not> isLineTerminator c"
    and d: "map canonicalize suf = map canonicalize (m @ x)
     \<or> map canonicalize suf = map canonicalize (m @ y)"
    by blast
  from r(2) have "c # suf = [c] @ suf \<and> [c] \<noteq> [] \<and> (\<forall>d\<in>set [c]. \<not> isLineTerminator d)"
    by simp
  with d
  have "rmatch True (RSeq (ROneOrMore Dot) (RSeq (lit m) (RSeq (RAlt (lit x) (lit y)) REnd)))
          (c # suf) \<noteq> []"
    unfolding rmatch_pattern by blast
  with r(1) show ?L unfolding regex_test_iff by blast
qed

lemma isCssFile_iff:
  "isCssFile s \<longleftrightarrow>
     (\<exists>pre c suf. s = pre @ c # suf \<and> \<not> isLineTerminator c
        \<and> (map canonicalize suf = map canonicalize ''.module.scss''
           \<or> map canonicalize suf = map canonicalize ''.module.css''))"
proof -
  have e: "''.module.'' @ ''scss'' = ''.module.scss''" "''.module.'' @ ''css'' = ''.module.css''"
    by simp_all
  have "isCssFile s \<longleftrightarrow>
     (\<exists>pre c suf. s = pre @ c # suf \<and> \<not> isLineTerminator c
        \<and> (map canonicalize suf = map canonicalize (''.module.'' @ ''scss'')
           \<or> map canonicalize suf = map canonicalize (''.module.'' @ ''css'')))"
    unfolding isCssFile_def css_module_pattern_def by (rule regex_test_pattern)
  then show ?thesis unfolding e .
qed

lemma ends_with_ci_append:
  assumes "map canonicalize suf = map canonicalize w"
  shows "ends_with_ci w (pre @ suf)"
proof -
  from assms have "length suf = length w" by (rule map_eq_imp_length_eq)
  with assms show ?thesis unfolding ends_with_ci_def by simp
qed

lemma ends_with_ci_preceded:
  assumes "s = pre @ c # suf" "map canonicalize suf = map canonicalize w"
  shows "ends_with_ci w s"
proof -
  from assms(1) have "s = (pre @ [c]) @ suf" by simp
  then show ?thesis using ends_with_ci_append [OF assms(2)] by (simp only:)
qed

lemma no_room_for_a_character:
  assumes v: "map f v = map f A \<or> map f v = map f B"
    and d: "map f suf = map f A \<or> map f suf = map f B"
    and dec: "v = pre @ c # suf"
    and len: "length B = Suc (length A)"
    and ne: "map f (tl B) \<noteq> map f A"
  shows False
proof -
  have lv: "length v = length A \<or> length v = length B"
    using v map_eq_imp_length_eq [of f v f A] map_eq_imp_length_eq [of f v f B] by blast
  have ls: "length suf = length A \<or> length suf = length B"
    using d map_eq_imp_length_eq [of f suf f A] map_eq_imp_length_eq [of f suf f B] by blast
  have "length v = length pre + 1 + length suf" unfolding dec by simp
  with lv ls len have l: "length v = length B" "length suf = length A" "length pre = 0"
    by arith+
  from l(1) len have "length v \<noteq> length A" by simp
  with v have a: "map f v = map f B" using map_eq_imp_length_eq [of f v f A] by blast
  from l(2) len have "length suf \<noteq> length B" by simp
  with d have b: "map f suf = map f A" using map_eq_imp_length_eq [of f suf f B] by blast
  from l(3) dec have "v = c # suf" by simp
  then have "map f suf = tl (map f v)" by simp
  also have "\<dots> = map f (tl B)" unfolding a by (rule map_tl [symmetric])
  finally show False using b ne by simp
qed

text \<open>
  C6, as the specification words it, fails on the specifier \<^verbatim>\<open>.module.css\<close>: it has the
  suffix and is not recognized.
\<close>

theorem isCssFile_suffix_counterexample:
  "spec_module_suffix ''.module.css'' \<and> \<not> isCssFile ''.module.css''"
  by code_simp

text \<open>
  C6, as amended. A specifier is recognized as a stylesheet module if and only if it
  ends, up to the case of letters, with \<^verbatim>\<open>.module.css\<close> or \<^verbatim>\<open>.module.scss\<close> and the suffix
  follows a character that is not a line terminator. So every recognized specifier passes
  the suffix test of the specification, and a specifier with any other suffix, such as a
  plain \<^verbatim>\<open>.css\<close>, is not recognized; the import handler returns the map unchanged for
  every specifier that is not recognized.
\<close>

theorem isCssFile_needs_preceding_character:
  "(isCssFile s \<longleftrightarrow>
      (\<exists>pre c suf. s = pre @ c # suf \<and> \<not> isLineTerminator c
         \<and> (map canonicalize suf = map canonicalize ''.module.css''
            \<or> map canonicalize suf = map canonicalize ''.module.scss'')))
   \<and> (isCssFile s \<longrightarrow> spec_module_suffix s)
   \<and> (\<not> isCssFile (source_value node) \<longrightarrow> ImportDeclaration E ctx node files = Inr files)"
proof -
  have 1: "isCssFile s \<longleftrightarrow>
      (\<exists>pre c suf. s = pre @ c # suf \<and> \<not> isLineTerminator c
         \<and> (map canonicalize suf = map canonicalize ''.module.css''
            \<or> map canonicalize suf = map canonicalize ''.module.scss''))"
    unfolding isCssFile_iff by blast
  have 2: "spec_module_suffix s" if "isCssFile s"
  proof -
    from that obtain pre c suf where s: "s = pre @ c # suf"
      and d: "map canonicalize suf = map canonicalize ''.module.css''
            \<or> map canonicalize suf = map canonicalize ''.module.scss''"
      unfolding 1 by blast
    from d show ?thesis
      unfolding spec_module_suffix_def using ends_with_ci_preceded [OF s] by blast
  qed
  have 3: "ImportDeclaration E ctx node files = Inr files" if "\<not> isCssFile (source_value node)"
    using that by (simp add: ImportDeclaration_def)
  from 1 2 3 show ?thesis by blast
qed

theorem isCssFile_needs_preceding_character_witness:
  "isCssFile ''./a.module.css'' \<and> spec_module_suffix ''./a.module.css''
   \<and> \<not> isCssFile ''./a.css''
   \<and> ImportDeclaration example_env example_context
         \<lparr>source_value = ''./a.css'', node_range = (0, 30)\<rparr> [] = Inr []"
proof -
  have h: "isCssFile ''./a.module.css''" by code_simp
  have n: "\<not> isCssFile (source_value \<lparr>source_value = ''./a.css'', node_range = (0, 30)\<rparr>)"
    by code_simp
  from h n
    isCssFile_needs_preceding_character
      [where s = "''./a.module.css''" and E = example_env and ctx = example_context
         and node = "\<lparr>source_value = ''./a.css'', node_range = (0, 30)\<rparr>" and files = "[]"]
  show ?thesis by simp
qed

lemma module_suffixes_differ:
  "length ''.module.scss'' = Suc (length ''.module.css'')
   \<and> map canonicalize (tl ''.module.scss'') \<noteq> map canonicalize ''.module.css''"
  by code_simp

text \<open>
  C10. A specifier that is, up to the case of letters, exactly \<^verbatim>\<open>.module.css\<close> or
  \<^verbatim>\<open>.module.scss\<close> is not recognized, and the import handler returns the map unchanged
  for it; every recognized specifier has at least one character before the suffix.
\<close>

theorem bare_suffix_not_a_stylesheet_module:
  assumes "map canonicalize (source_value node) = map canonicalize ''.module.css''
           \<or> map canonicalize (source_value node) = map canonicalize ''.module.scss''"
  shows "\<not> isCssFile (source_value node)
         \<and> ImportDeclaration E ctx node files = Inr files
         \<and> (isCssFile s \<longrightarrow>
              (\<exists>pre suf. s = pre @ suf \<and> pre \<noteq> []
                 \<and> (map canonicalize suf = map canonicalize ''.module.css''
                    \<or> map canonicalize suf = map canonicalize ''.module.scss'')))"
proof -
  let ?v = "source_value node"
  have n: "\<not> isCssFile ?v"
  proof
    assume "isCssFile ?v"
    then obtain pre c suf where v: "?v = pre @ c # suf"
      and d: "map canonicalize suf = map canonicalize ''.module.css''
            \<or> map canonicalize suf = map canonicalize ''.module.scss''"
      unfolding isCssFile_iff by blast
    from assms d v module_suffixes_differ show False
      by (intro no_room_for_a_character
            [of canonicalize ?v "''.module.css''" "''.module.scss''" suf pre c]) blast+
  qed
  have r: "\<exists>pre suf. s = pre @ suf \<and> pre \<noteq> []
                 \<and> (map canonicalize suf = map canonicalize ''.module.css''
                    \<or> map canonicalize suf = map canonicalize ''.module.scss'')"
    if "isCssFile s"
  proof -
    from that obtain pre c suf where s: "s = pre @ c # suf"
      and d: "map canonicalize suf = map canonicalize ''.module.css''
            \<or> map canonicalize suf = map canonicalize ''.module.scss''"
      unfolding isCssFile_iff by blast
    from s have "s = (pre @ [c]) @ suf \<and> pre @ [c] \<noteq> []" by simp
    with d show ?thesis by blast
  qed
  from n have "ImportDeclaration E ctx node files = Inr files"
    by (simp add: ImportDeclaration_def)
  with n r show ?thesis by blast
qed

theorem bare_suffix_witness:
  "\<not> isCssFile ''.Module.CSS''
   \<and> ImportDeclaration example_env example_context
        \<lparr>source_value = ''.Module.CSS'', node_range = (0, 21)\<rparr> [] = Inr []
   \<and> isCssFile ''a.module.css''
   \<and> (\<exists>pre suf. ''a.module.css'' = pre @ suf \<and> pre \<noteq> []
         \<and> (map canonicalize suf = map canonicalize ''.module.css''
            \<or> map canonicalize suf = map canonicalize ''.module.scss''))"
proof -
  have h: "map canonicalize (source_value \<lparr>source_value = ''.Module.CSS'', node_range = (0, 21)\<rparr>)
             = map canonicalize ''.module.css''
           \<or> map canonicalize (source_value \<lparr>source_value = ''.Module.CSS'', node_range = (0, 21)\<rparr>)
             = map canonicalize ''.module.scss''"
    by code_simp
  have c: "isCssFile ''a.module.css''" by code_simp
  from bare_suffix_not_a_stylesheet_module
         [OF h, where E = example_env and ctx = example_context and files = "[]"
            and s = "''a.module.css''"] c
  show ?thesis by (simp del: append_eq_Cons_conv Cons_eq_append_conv)
qed

section \<open>The order of the events\<close>

lemma map_of_upsert:
  "map_of (files_update fn g
             (if files_has files fn then files else files_set files fn r0)) k
   = (if k = fn then Some (g (case map_of files fn of None \<Rightarrow> r0 | Some r \<Rightarrow> r))
      else map_of files k)"
  by (auto simp: files_has_def map_of_files_update map_of_files_set)

lemma MemberExpression_cases:
  "MemberExpression ctx node files =
     (case propertyName node of
        None \<Rightarrow> files
      | Some name \<Rightarrow>
          if name = [] then files
          else files_update (filename ctx)
                 (\<lambda>r. r\<lparr>usedClassNames := set_add name (usedClassNames r)\<rparr>)
                 (if files_has files (filename ctx) then files
                  else files_set files (filename ctx)
                         \<lparr>availableClassNames = [], usedClassNames = [], meta = None\<rparr>))"
  by (simp add: MemberExpression_def Let_def split: option.splits)

lemma observe_empty:
  "available_of [] k = {}" "used_of [] k = {}" "\<not> files_has [] k"
  by (simp_all add: available_of_def used_of_def files_has_def files_get_def)

lemma set_set_add: "set (set_add x s) = insert x (set s)"
  by (auto simp: set_add_def)

lemma upsert_available:
  "available_of (files_update fn g
       (if files_has files fn then files else files_set files fn r0)) k
     = (if k = fn
        then set (availableClassNames (g (case files_get files fn of None \<Rightarrow> r0 | Some r \<Rightarrow> r)))
        else available_of files k)"
proof -
  let ?U = "files_update fn g (if files_has files fn then files else files_set files fn r0)"
  have "available_of ?U k = (case map_of ?U k of None \<Rightarrow> {} | Some r \<Rightarrow> set (availableClassNames r))"
    unfolding available_of_def files_get_def ..
  also have "\<dots> = (if k = fn
        then set (availableClassNames (g (case files_get files fn of None \<Rightarrow> r0 | Some r \<Rightarrow> r)))
        else available_of files k)"
    unfolding map_of_upsert by (simp add: available_of_def files_get_def)
  finally show ?thesis .
qed

lemma upsert_used:
  "used_of (files_update fn g
       (if files_has files fn then files else files_set files fn r0)) k
     = (if k = fn
        then set (usedClassNames (g (case files_get files fn of None \<Rightarrow> r0 | Some r \<Rightarrow> r)))
        else used_of files k)"
proof -
  let ?U = "files_update fn g (if files_has files fn then files else files_set files fn r0)"
  have "used_of ?U k = (case map_of ?U k of None \<Rightarrow> {} | Some r \<Rightarrow> set (usedClassNames r))"
    unfolding used_of_def files_get_def ..
  also have "\<dots> = (if k = fn
        then set (usedClassNames (g (case files_get files fn of None \<Rightarrow> r0 | Some r \<Rightarrow> r)))
        else used_of files k)"
    unfolding map_of_upsert by (simp add: used_of_def files_get_def)
  finally show ?thesis .
qed

lemma upsert_has:
  "files_has (files_update fn g
       (if files_has files fn then files else files_set files fn r0)) k
     \<longleftrightarrow> k = fn \<or> files_has files k"
proof -
  let ?U = "files_update fn g (if files_has files fn then files else files_set files fn r0)"
  have "files_has ?U k \<longleftrightarrow> map_of ?U k \<noteq> None"
    by (rule files_has_def)
  also have "\<dots> \<longleftrightarrow> k = fn \<or> files_has files k"
    unfolding map_of_upsert by (simp add: files_has_def)
  finally show ?thesis .
qed

lemmas upsert_observe = upsert_available upsert_used upsert_has

lemma MemberExpression_effect:
  "available_of (MemberExpression ctx n files) k
     = available_of files k \<union> available_of (MemberExpression ctx n []) k
   \<and> used_of (MemberExpression ctx n files) k
     = used_of files k \<union> used_of (MemberExpression ctx n []) k
   \<and> (files_has (MemberExpression ctx n files) k
        \<longleftrightarrow> files_has files k \<or> files_has (MemberExpression ctx n []) k)"
proof (cases "propertyName n")
  case None
  then show ?thesis by (simp add: MemberExpression_cases observe_empty)
next
  case (Some name)
  show ?thesis
  proof (cases "name = []")
    case True
    with Some show ?thesis by (simp add: MemberExpression_cases observe_empty)
  next
    case False
    have 1: "MemberExpression ctx n fs =
             files_update (filename ctx)
               (\<lambda>r. r\<lparr>usedClassNames := set_add name (usedClassNames r)\<rparr>)
               (if files_has fs (filename ctx) then fs
                else files_set fs (filename ctx)
                       \<lparr>availableClassNames = [], usedClassNames = [], meta = None\<rparr>)" for fs
      using Some False by (simp add: MemberExpression_cases)
    show ?thesis
      unfolding 1 upsert_observe
      by (simp add: available_of_def used_of_def files_has_def files_get_def
            set_set_add split: option.splits)
  qed
qed

lemma ImportDeclaration_effect:
  "(case ImportDeclaration E ctx node files of
      Inl e \<Rightarrow> ImportDeclaration E ctx node [] = Inl e
    | Inr f \<Rightarrow>
        (case ImportDeclaration E ctx node [] of
           Inl e \<Rightarrow> False
         | Inr f0 \<Rightarrow>
             available_of f k = available_of files k \<union> available_of f0 k
             \<and> used_of f k = used_of files k \<union> used_of f0 k
             \<and> (files_has f k \<longleftrightarrow> files_has files k \<or> files_has f0 k)))"
proof -
  let ?p = "resolvePhysicalCssFilePath E (filename ctx) (source_value node)
              (getBasePathSetting (settings ctx))"
  show ?thesis
  proof (cases "isCssFile (source_value node) \<and> fs_existsSync E ?p")
    case False
    then show ?thesis by (auto simp: ImportDeclaration_cases Let_def observe_empty)
  next
    case c: True
    show ?thesis
    proof (cases "parseCssFileAst E ?p")
      case (Inl e)
      with c show ?thesis by (simp add: ImportDeclaration_cases)
    next
      case (Inr ast)
      show ?thesis
      proof (cases "class_selectors ast = []")
        case True
        with c Inr show ?thesis by (simp add: ImportDeclaration_cases observe_empty)
      next
        case False
        let ?g = "\<lambda>r. r\<lparr>availableClassNames :=
                        forEach_add (getCssFileClassNames ast) (availableClassNames r)\<rparr>"
        let ?r0 = "\<lparr>availableClassNames = [], usedClassNames = [],
                    meta = Some \<lparr>importNode = node, cssFilePath = ?p\<rparr>\<rparr>"
        have 1: "ImportDeclaration E ctx node fs =
                 Inr (files_update (filename ctx) ?g
                        (if files_has fs (filename ctx) then fs
                         else files_set fs (filename ctx) ?r0))" for fs
          using c Inr False by (simp add: ImportDeclaration_cases)
        show ?thesis
          unfolding 1 sum.case upsert_observe
          by (simp add: available_of_def used_of_def files_has_def files_get_def
                set_forEach_add split: option.splits)
      qed
    qed
  qed
qed

lemma handle_effect:
  "(case handle E ctx ev files of
      Inl e \<Rightarrow> event_throws E ctx ev
    | Inr f \<Rightarrow>
        \<not> event_throws E ctx ev
        \<and> available_of f k = available_of files k \<union> event_available E ctx ev k
        \<and> used_of f k = used_of files k \<union> event_used E ctx ev k
        \<and> (files_has f k \<longleftrightarrow> files_has files k \<or> event_creates E ctx ev k))"
proof (cases ev)
  case (ImportEvent node)
  show ?thesis
    using ImportDeclaration_effect [where E = E and ctx = ctx and node = node and files = files and k = k]
    unfolding event_throws_def event_available_def event_used_def event_creates_def ImportEvent
    by (simp split: sum.splits)
next
  case (MemberEvent n)
  show ?thesis
    using MemberExpression_effect [where ctx = ctx and n = n and files = files and k = k]
    unfolding event_throws_def event_available_def event_used_def event_creates_def MemberEvent
    by simp
qed

lemma traverse_effect:
  "(case traverse E ctx es files of
      Inl e \<Rightarrow> (\<exists>ev\<in>set es. event_throws E ctx ev)
    | Inr f \<Rightarrow>
        (\<forall>ev\<in>set es. \<not> event_throws E ctx ev)
        \<and> available_of f k = available_of files k \<union> (\<Union>ev\<in>set es. event_available E ctx ev k)
        \<and> used_of f k = used_of files k \<union> (\<Union>ev\<in>set es. event_used E ctx ev k)
        \<and> (files_has f k \<longleftrightarrow> files_has files k \<or> (\<exists>ev\<in>set es. event_creates E ctx ev k)))"
proof (induction es arbitrary: files)
  case Nil
  show ?case by simp
next
  case (Cons ev es)
  show ?case
  proof (cases "handle E ctx ev files")
    case (Inl e)
    then show ?thesis using handle_effect [where E = E and ctx = ctx and ev = ev and files = files and k = k] by simp
  next
    case (Inr f1)
    with handle_effect [where E = E and ctx = ctx and ev = ev and files = files and k = k]
    have h: "\<not> event_throws E ctx ev"
      "available_of f1 k = available_of files k \<union> event_available E ctx ev k"
      "used_of f1 k = used_of files k \<union> event_used E ctx ev k"
      "files_has f1 k \<longleftrightarrow> files_has files k \<or> event_creates E ctx ev k"
      by simp_all
    show ?thesis
    proof (cases "traverse E ctx es f1")
      case (Inl e)
      with Cons.IH [where files = f1] Inr show ?thesis by simp
    next
      case r: (Inr f)
      with Cons.IH [where files = f1] have
        "\<forall>ev\<in>set es. \<not> event_throws E ctx ev"
        "available_of f k = available_of f1 k \<union> (\<Union>ev\<in>set es. event_available E ctx ev k)"
        "used_of f k = used_of f1 k \<union> (\<Union>ev\<in>set es. event_used E ctx ev k)"
        "files_has f k \<longleftrightarrow> files_has f1 k \<or> (\<exists>ev\<in>set es. event_creates E ctx ev k)"
        by simp_all
      with h Inr r show ?thesis by (simp add: Un_assoc)
    qed
  qed
qed

text \<open>
  C5. Two traversals of the same events in different orders, from the same map, either
  both throw or both return, and then every source file has the same set of available
  class names and the same set of used class names in both results, and has a record in
  one exactly when it has one in the other.
\<close>

theorem traversal_order_irrelevant:
  assumes "mset es = mset es'"
  shows "case traverse E ctx es files of
           Inl e \<Rightarrow> (\<exists>e'. traverse E ctx es' files = Inl e')
         | Inr f \<Rightarrow>
             (\<exists>f'. traverse E ctx es' files = Inr f'
                \<and> (\<forall>k. available_of f k = available_of f' k
                       \<and> used_of f k = used_of f' k
                       \<and> files_has f k = files_has f' k))"
proof -
  from assms have s: "set es = set es'" by (rule mset_eq_setD)
  show ?thesis
  proof (cases "traverse E ctx es files")
    case (Inl e)
    with traverse_effect [where E = E and ctx = ctx and es = es and files = files] have "\<exists>ev\<in>set es'. event_throws E ctx ev"
      unfolding s by simp
    then obtain e' where "traverse E ctx es' files = Inl e'"
      using traverse_effect [where E = E and ctx = ctx and es = es' and files = files] by (cases "traverse E ctx es' files") auto
    with Inl show ?thesis by simp
  next
    case (Inr f)
    have a: "\<forall>ev\<in>set es'. \<not> event_throws E ctx ev"
      using traverse_effect [where E = E and ctx = ctx and es = es and files = files] Inr unfolding s by simp
    then obtain f' where f': "traverse E ctx es' files = Inr f'"
      using traverse_effect [where E = E and ctx = ctx and es = es' and files = files] by (cases "traverse E ctx es' files") auto
    have "available_of f k = available_of f' k \<and> used_of f k = used_of f' k
          \<and> files_has f k = files_has f' k" for k
      using traverse_effect [where E = E and ctx = ctx and es = es and files = files and k = k] traverse_effect [where E = E and ctx = ctx and es = es' and files = files and k = k] Inr f'
      unfolding s by simp
    with Inr f' show ?thesis by simp
  qed
qed

theorem traversal_order_witness:
  "mset [MemberEvent example_member, ImportEvent example_import]
     = mset [ImportEvent example_import, MemberEvent example_member]
   \<and> (\<exists>f f'. traverse example_env example_context
                 [MemberEvent example_member, ImportEvent example_import] [] = Inr f
           \<and> traverse example_env example_context
                 [ImportEvent example_import, MemberEvent example_member] [] = Inr f'
           \<and> available_of f ''/app/page.tsx'' = available_of f' ''/app/page.tsx''
           \<and> used_of f ''/app/page.tsx'' = used_of f' ''/app/page.tsx'')"
proof -
  have h: "mset [MemberEvent example_member, ImportEvent example_import]
     = mset [ImportEvent example_import, MemberEvent example_member]"
    by (simp add: add.commute)
  have f: "traverse example_env example_context
             [MemberEvent example_member, ImportEvent example_import] []
           = Inr [(''/app/page.tsx'',
                   \<lparr>availableClassNames = [''x'', ''y''], usedClassNames = [''x''],
                    meta = None\<rparr>)]"
    by code_simp
  from traversal_order_irrelevant [OF h, where E = example_env and ctx = example_context and files = "[]"] f h
  show ?thesis by auto
qed

section \<open>The anchor\<close>

text \<open>
  No handler changes the \<open>meta\<close> of a record that exists: an anchor that is set stays
  as it is, and a record that a property access created stays without one.
\<close>

lemma upsert_meta:
  assumes "files_has files k" "\<forall>r. meta (g r) = meta r"
  shows "map_option meta
           (files_get (files_update fn g
              (if files_has files fn then files else files_set files fn r0)) k)
         = map_option meta (files_get files k)"
  using assms unfolding files_get_def map_of_upsert by (auto simp: files_has_def)

lemma ImportDeclaration_keeps_meta:
  assumes "files_has files k" "ImportDeclaration E ctx node files = Inr f"
  shows "map_option meta (files_get f k) = map_option meta (files_get files k)"
proof -
  let ?p = "resolvePhysicalCssFilePath E (filename ctx) (source_value node)
              (getBasePathSetting (settings ctx))"
  show ?thesis
  proof (cases "isCssFile (source_value node) \<and> fs_existsSync E ?p")
    case False
    with assms(2) have "f = files" by (auto simp: ImportDeclaration_cases Let_def)
    then show ?thesis by simp
  next
    case c: True
    show ?thesis
    proof (cases "parseCssFileAst E ?p")
      case (Inl e)
      with c assms(2) show ?thesis by (simp add: ImportDeclaration_cases)
    next
      case (Inr ast)
      show ?thesis
      proof (cases "class_selectors ast = []")
        case True
        with c Inr assms(2) have "f = files" by (simp add: ImportDeclaration_cases)
        then show ?thesis by simp
      next
        case False
        let ?g = "\<lambda>r. r\<lparr>availableClassNames :=
                        forEach_add (getCssFileClassNames ast) (availableClassNames r)\<rparr>"
        let ?r0 = "\<lparr>availableClassNames = [], usedClassNames = [],
                    meta = Some \<lparr>importNode = node, cssFilePath = ?p\<rparr>\<rparr>"
        have "ImportDeclaration E ctx node files =
                 Inr (files_update (filename ctx) ?g
                        (if files_has files (filename ctx) then files
                         else files_set files (filename ctx) ?r0))"
          using c Inr False by (simp add: ImportDeclaration_cases)
        with assms(2) have f: "f = files_update (filename ctx) ?g
                        (if files_has files (filename ctx) then files
                         else files_set files (filename ctx) ?r0)"
          by simp
        show ?thesis unfolding f by (rule upsert_meta [OF assms(1)]) simp
      qed
    qed
  qed
qed

lemma MemberExpression_keeps_meta:
  assumes "files_has files k"
  shows "map_option meta (files_get (MemberExpression ctx n files) k)
         = map_option meta (files_get files k)"
proof (cases "propertyName n")
  case None
  then show ?thesis by (simp add: MemberExpression_cases)
next
  case (Some name)
  show ?thesis
  proof (cases "name = []")
    case True
    with Some show ?thesis by (simp add: MemberExpression_cases)
  next
    case False
    have 1: "MemberExpression ctx n files =
             files_update (filename ctx)
               (\<lambda>r. r\<lparr>usedClassNames := set_add name (usedClassNames r)\<rparr>)
               (if files_has files (filename ctx) then files
                else files_set files (filename ctx)
                       \<lparr>availableClassNames = [], usedClassNames = [], meta = None\<rparr>)"
      using Some False by (simp add: MemberExpression_cases)
    show ?thesis unfolding 1 by (rule upsert_meta [OF assms]) simp
  qed
qed

lemma handle_keeps_meta:
  assumes "files_has files k" "handle E ctx ev files = Inr f"
  shows "map_option meta (files_get f k) = map_option meta (files_get files k)"
proof (cases ev)
  case (ImportEvent node)
  with assms show ?thesis by (simp add: ImportDeclaration_keeps_meta)
next
  case (MemberEvent n)
  with assms show ?thesis by (auto simp: MemberExpression_keeps_meta)
qed

lemma traverse_keeps_meta:
  assumes "files_has files k" "traverse E ctx es files = Inr f"
  shows "map_option meta (files_get f k) = map_option meta (files_get files k)"
  using assms
proof (induction es arbitrary: files)
  case Nil
  then show ?case by simp
next
  case (Cons ev es)
  from Cons.prems(2) obtain f1 where f1: "handle E ctx ev files = Inr f1"
    and t: "traverse E ctx es f1 = Inr f"
    by (auto split: sum.splits)
  from handle_effect [where E = E and ctx = ctx and ev = ev and files = files and k = k]
    f1 Cons.prems(1)
  have "files_has f1 k" by simp
  from Cons.IH [OF this t] handle_keeps_meta [OF Cons.prems(1) f1]
  show ?case by simp
qed

text \<open>
  C1. The anchor of a record is the first import whose stylesheet yields a class name,
  also when property accesses created the record before that import. The code stores
  the anchor only when the import creates the record: on the run below, where the access
  \<^verbatim>\<open>styles.x\<close> is visited before the import, the record gets the class names of the
  stylesheet but no anchor, and the unused class \<^verbatim>\<open>y\<close> is not reported. With the import
  visited first the same record is anchored at the import and reported.
\<close>

theorem anchor_lost_when_property_access_precedes_import:
  "traverse example_env example_context
     [MemberEvent example_member, ImportEvent example_import] []
   = Inr [(''/app/page.tsx'',
           \<lparr>availableClassNames = [''x'', ''y''], usedClassNames = [''x''], meta = None\<rparr>)]
   \<and> lint example_env example_context
         [MemberEvent example_member, ImportEvent example_import] = Inr []
   \<and> traverse example_env example_context
        [ImportEvent example_import, MemberEvent example_member] []
      = Inr [(''/app/page.tsx'',
              \<lparr>availableClassNames = [''x'', ''y''], usedClassNames = [''x''],
               meta = Some \<lparr>importNode = example_import,
                            cssFilePath = ''/app/./a.module.css''\<rparr>\<rparr>)]
   \<and> map report_node (projr (lint example_env example_context
         [ImportEvent example_import, MemberEvent example_member])) = [example_import]"
  by code_simp

end
